theory Spec2Isabelle
  imports Main "HOL-Library.Sublist"
begin

section \<open>pyudev.core: the udev context and the device enumerator\<close>

text \<open>
  A shallow embedding of \<^verbatim>\<open>src/pyudev/core.py\<close>: the classes \<^verbatim>\<open>Context\<close> and
  \<^verbatim>\<open>Enumerator\<close>. Every method is a function on an explicit world, the state of the
  native udev library that the methods call through \<^verbatim>\<open>libudev\<close>. An exception is the
  value \<open>Inl\<close> of a sum; the world reached when it was raised is returned with it.

  Three collaborators of \<^verbatim>\<open>core.py\<close> are not part of the sources: the native library
  behind \<^verbatim>\<open>pyudev._libudev\<close>, the helpers of \<^verbatim>\<open>pyudev._util\<close> and
  \<^verbatim>\<open>pyudev.device.Device\<close>. They are modelled from the specification, each definition
  says so, and everything else follows the code line by line.
\<close>

subsection \<open>Values and objects\<close>

type_synonym bytes = string
type_synonym handle = nat

text \<open>
  The exceptions: \<open>TypeError\<close> is the one \<^verbatim>\<open>raise\<close> of \<^verbatim>\<open>core.py\<close>. The others are the
  specification's taxonomy for the collaborators: an argument of an unsupported kind
  (\<open>InvalidArgument\<close>, also the failed conversion of an argument to a native parameter),
  a device that cannot be resolved (\<open>ResolutionFailure\<close>), and the read of an attribute
  that was never set (\<open>AttributeError\<close>).
\<close>

datatype error = TypeError | InvalidArgument | AttributeError | ResolutionFailure

text \<open>
  A \<^verbatim>\<open>Context\<close> object has one attribute, \<^verbatim>\<open>_as_parameter_\<close>, the native registry handle.
\<close>

record context_obj =
  c_as_parameter :: handle

text \<open>
  An \<^verbatim>\<open>Enumerator\<close> object has the attributes \<^verbatim>\<open>context\<close> and \<^verbatim>\<open>_as_parameter_\<close>.
  Both are unset (\<open>None\<close>) on the object that \<^verbatim>\<open>__init__\<close> receives.
\<close>

record enumerator_obj =
  e_context :: "context_obj option"
  e_as_parameter :: "handle option"

text \<open>
  A \<^verbatim>\<open>Device\<close> object, as far as the enumerator sees it: the context it was resolved
  with and its sys path.
\<close>

record device_obj =
  dev_context :: context_obj
  dev_path :: bytes

text \<open>
  The Python values that reach the methods. A text (unicode) string is represented by
  the byte string of its encoding, so \<open>PText\<close> and \<open>PBytes\<close> differ in the type of the
  value only. An instance of any other class than \<^verbatim>\<open>Context\<close> and \<^verbatim>\<open>Device\<close> is
  given by its text conversion.
\<close>

datatype pyvalue =
    PNone
  | PBool bool
  | PInt int
  | PBytes bytes
  | PText bytes
  | PContext context_obj
  | PDevice device_obj
  | POther bytes

type_synonym kwargs = "(string \<times> pyvalue) list"

subsection \<open>The native library\<close>

text \<open>
  A device of the registry, with what the match predicates read.
\<close>

record udev_device =
  d_sys_path :: bytes
  d_subsystem :: bytes
  d_sys_name :: bytes
  d_properties :: "(bytes \<times> bytes) list"
  d_attributes :: "(bytes \<times> bytes) list"
  d_tags :: "bytes list"
  d_is_initialized :: bool

text \<open>
  The match predicates of the specification's data model: \<open>subsystem(name)\<close>,
  \<open>sys_name(name)\<close>, \<open>property(key,value)\<close>, \<open>attribute(key,value)\<close>, \<open>tag(name)\<close>,
  \<open>is_initialized()\<close> and \<open>parent(device)\<close>, the parent given by its sys path.
\<close>

datatype match_pred =
    MSubsystem bytes
  | MSysName bytes
  | MProperty bytes bytes
  | MAttribute bytes bytes
  | MTag bytes
  | MIsInitialized
  | MParent bytes

datatype kind = KSubsystem | KSysName | KProperty | KAttribute | KTag | KIsInitialized | KParent

fun kind_of :: "match_pred \<Rightarrow> kind" where
  "kind_of (MSubsystem _) = KSubsystem"
| "kind_of (MSysName _) = KSysName"
| "kind_of (MProperty _ _) = KProperty"
| "kind_of (MAttribute _ _) = KAttribute"
| "kind_of (MTag _) = KTag"
| "kind_of MIsInitialized = KIsInitialized"
| "kind_of (MParent _) = KParent"

definition all_kinds :: "kind list" where
  "all_kinds = [KSubsystem, KSysName, KProperty, KAttribute, KTag, KIsInitialized, KParent]"

text \<open>
  A native enumeration object: the registry object it is bound to, its reference count,
  the match predicates in the order they were added, and the entry list of its last
  scan, a list of (name, value) pairs.
\<close>

record native_enumerate =
  en_udev :: handle
  en_refs :: nat
  en_matches :: "match_pred list"
  en_list :: "(bytes \<times> bytes) list"

text \<open>
  The calls into the native library, in the order they are made.
\<close>

datatype native_call =
    Call_udev_new handle
  | Call_udev_unref handle
  | Call_enumerate_new handle handle
  | Call_enumerate_unref handle
  | Call_add_match handle match_pred
  | Call_scan_devices handle
  | Call_get_list_entry handle
  | Call_device_new_from_syspath handle bytes

text \<open>
  The world: the devices the registry knows now, the native registry objects (their
  reference counts by handle) and enumeration objects, the next free handle of each
  kind, and the log of native calls.
\<close>

record world =
  registry :: "udev_device list"
  udev_refs :: "handle \<Rightarrow> nat"
  next_udev :: handle
  enums :: "handle \<Rightarrow> native_enumerate"
  next_enum :: handle
  calls :: "native_call list"

type_synonym 'a py = "world \<Rightarrow> (error + 'a) \<times> world"

definition log_call :: "native_call \<Rightarrow> world \<Rightarrow> world" where
  "log_call c w = w\<lparr>calls := calls w @ [c]\<rparr>"

text \<open>
  Modelled from the spec: the native library behind \<^verbatim>\<open>pyudev._libudev\<close> (section 6:
  acquire and release a registry connection, acquire and release an enumeration object
  bound to a connection). Acquiring gives a new object holding one reference; releasing
  gives one reference back.
\<close>

definition udev_new :: "world \<Rightarrow> handle \<times> world" where
  "udev_new w =
     (let h = next_udev w
      in (h, log_call (Call_udev_new h)
               (w\<lparr>udev_refs := (udev_refs w)(h := 1), next_udev := Suc h\<rparr>)))"

definition udev_unref :: "handle \<Rightarrow> world \<Rightarrow> world" where
  "udev_unref h w =
     log_call (Call_udev_unref h) (w\<lparr>udev_refs := (udev_refs w)(h := udev_refs w h - 1)\<rparr>)"

definition udev_enumerate_new :: "handle \<Rightarrow> world \<Rightarrow> handle \<times> world" where
  "udev_enumerate_new u w =
     (let h = next_enum w
      in (h, log_call (Call_enumerate_new u h)
               (w\<lparr>enums := (enums w)
                         (h := \<lparr>en_udev = u, en_refs = 1, en_matches = [], en_list = []\<rparr>),
                   next_enum := Suc h\<rparr>)))"

definition udev_enumerate_unref :: "handle \<Rightarrow> world \<Rightarrow> world" where
  "udev_enumerate_unref h w =
     log_call (Call_enumerate_unref h)
       (w\<lparr>enums := (enums w)(h := (enums w h)\<lparr>en_refs := en_refs (enums w h) - 1\<rparr>)\<rparr>)"

text \<open>
  Modelled from the spec: the seven native calls that add a match predicate (section 4.2:
  each appends the predicate to the native enumerator's internal match list in the order
  requested).
\<close>

definition add_match :: "handle \<Rightarrow> match_pred \<Rightarrow> world \<Rightarrow> world" where
  "add_match h p w =
     log_call (Call_add_match h p)
       (w\<lparr>enums := (enums w)(h := (enums w h)\<lparr>en_matches := en_matches (enums w h) @ [p]\<rparr>)\<rparr>)"

definition udev_enumerate_add_match_subsystem :: "handle \<Rightarrow> bytes \<Rightarrow> world \<Rightarrow> world" where
  "udev_enumerate_add_match_subsystem h s = add_match h (MSubsystem s)"

definition udev_enumerate_add_match_sysname :: "handle \<Rightarrow> bytes \<Rightarrow> world \<Rightarrow> world" where
  "udev_enumerate_add_match_sysname h s = add_match h (MSysName s)"

definition udev_enumerate_add_match_property :: "handle \<Rightarrow> bytes \<Rightarrow> bytes \<Rightarrow> world \<Rightarrow> world" where
  "udev_enumerate_add_match_property h k v = add_match h (MProperty k v)"

definition udev_enumerate_add_match_sysattr :: "handle \<Rightarrow> bytes \<Rightarrow> bytes \<Rightarrow> world \<Rightarrow> world" where
  "udev_enumerate_add_match_sysattr h k v = add_match h (MAttribute k v)"

definition udev_enumerate_add_match_tag :: "handle \<Rightarrow> bytes \<Rightarrow> world \<Rightarrow> world" where
  "udev_enumerate_add_match_tag h t = add_match h (MTag t)"

definition udev_enumerate_add_match_is_initialized :: "handle \<Rightarrow> world \<Rightarrow> world" where
  "udev_enumerate_add_match_is_initialized h = add_match h MIsInitialized"

definition udev_enumerate_add_match_parent :: "handle \<Rightarrow> bytes \<Rightarrow> world \<Rightarrow> world" where
  "udev_enumerate_add_match_parent h p = add_match h (MParent p)"

text \<open>
  Modelled from the spec: what one predicate asks of a device (sections 3 and 4.2). A
  value is compared for equality, as in the specification's example; the parent
  predicate holds of the parent itself and of every device whose sys path lies below
  the parent's.
\<close>

fun matches :: "match_pred \<Rightarrow> udev_device \<Rightarrow> bool" where
  "matches (MSubsystem s) d = (d_subsystem d = s)"
| "matches (MSysName n) d = (d_sys_name d = n)"
| "matches (MProperty k v) d = (map_of (d_properties d) k = Some v)"
| "matches (MAttribute k v) d = (map_of (d_attributes d) k = Some v)"
| "matches (MTag t) d = (t \<in> set (d_tags d))"
| "matches MIsInitialized d = d_is_initialized d"
| "matches (MParent p) d = (d_sys_path d = p \<or> prefix (p @ ''/'') (d_sys_path d))"

text \<open>
  Modelled from the spec: the native scan (section 3, the boolean combination
  invariant). The predicates of one kind are alternatives; a kind with no predicate asks
  nothing; a device is in the result when every kind is satisfied. The scan stores the
  matching devices' sys paths, in registry order, as the enumeration object's entry
  list; retrieving the list head gives that list.
\<close>

definition kind_ok :: "kind \<Rightarrow> match_pred list \<Rightarrow> udev_device \<Rightarrow> bool" where
  "kind_ok k ps d =
     (let same = filter (\<lambda>p. kind_of p = k) ps
      in same = [] \<or> list_ex (\<lambda>p. matches p d) same)"

definition device_matches :: "match_pred list \<Rightarrow> udev_device \<Rightarrow> bool" where
  "device_matches ps d = list_all (\<lambda>k. kind_ok k ps d) all_kinds"

definition scan_result :: "match_pred list \<Rightarrow> udev_device list \<Rightarrow> (bytes \<times> bytes) list" where
  "scan_result ps reg = map (\<lambda>d. (d_sys_path d, [])) (filter (device_matches ps) reg)"

definition udev_enumerate_scan_devices :: "handle \<Rightarrow> world \<Rightarrow> world" where
  "udev_enumerate_scan_devices h w =
     log_call (Call_scan_devices h)
       (w\<lparr>enums := (enums w)
             (h := (enums w h)\<lparr>en_list := scan_result (en_matches (enums w h)) (registry w)\<rparr>)\<rparr>)"

definition udev_enumerate_get_list_entry :: "handle \<Rightarrow> world \<Rightarrow> (bytes \<times> bytes) list \<times> world" where
  "udev_enumerate_get_list_entry h w = (en_list (enums w h), log_call (Call_get_list_entry h) w)"

subsection \<open>The helpers of pyudev._util and the device resolver\<close>

text \<open>
  Modelled from the spec: \<^verbatim>\<open>ensure_byte_string\<close> of \<^verbatim>\<open>pyudev._util\<close> (section 4.2: text
  arguments are encoded, byte arguments pass through unchanged; section 7: a value of an
  unsupported kind is an invalid argument).
\<close>

fun ensure_byte_string :: "pyvalue \<Rightarrow> error + bytes" where
  "ensure_byte_string (PBytes b) = Inr b"
| "ensure_byte_string (PText t) = Inr t"
| "ensure_byte_string _ = Inl InvalidArgument"

text \<open>
  The decimal text of an integer, as Python's text conversion writes it.
\<close>

definition digit_char :: "nat \<Rightarrow> char" where
  "digit_char d = ''0123456789'' ! d"

fun nat_text :: "nat \<Rightarrow> bytes" where
  "nat_text n = (if n < 10 then [digit_char n] else nat_text (n div 10) @ [digit_char (n mod 10)])"

declare nat_text.simps [simp del]

definition int_text :: "int \<Rightarrow> bytes" where
  "int_text i = (if i < 0 then CHR ''-'' # nat_text (nat (- i)) else nat_text (nat i))"

text \<open>
  Modelled from the spec: \<^verbatim>\<open>property_value_to_bytes\<close> of \<^verbatim>\<open>pyudev._util\<close> (section 4.2:
  integers render as decimal text, booleans render as the registry's truth tokens
  \<open>1\<close> and \<open>0\<close>, byte strings pass through, everything else is converted via its text
  representation). The text of a \<^verbatim>\<open>Context\<close> or \<^verbatim>\<open>Device\<close> instance is not fixed by the
  specification; the model gives each a constant text, and no result below reads it.
\<close>

fun property_value_to_bytes :: "pyvalue \<Rightarrow> bytes" where
  "property_value_to_bytes (PBool b) = (if b then ''1'' else ''0'')"
| "property_value_to_bytes (PInt i) = int_text i"
| "property_value_to_bytes (PBytes b) = b"
| "property_value_to_bytes (PText t) = t"
| "property_value_to_bytes PNone = ''None''"
| "property_value_to_bytes (POther t) = t"
| "property_value_to_bytes (PContext _) = ''<pyudev.core.Context object>''"
| "property_value_to_bytes (PDevice _) = ''<pyudev.device.Device object>''"

text \<open>
  Modelled from the spec: \<^verbatim>\<open>Device.from_sys_path\<close> of \<^verbatim>\<open>pyudev.device\<close>, the device
  resolver (sections 2 and 7: given a context and a sys path it produces a device
  handle; it fails when the registry has no device at that path).
\<close>

definition from_sys_path :: "context_obj \<Rightarrow> bytes \<Rightarrow> device_obj py" where
  "from_sys_path ctx name w =
     (if name \<in> set (map d_sys_path (registry w))
      then (Inr \<lparr>dev_context = ctx, dev_path = name\<rparr>,
            log_call (Call_device_new_from_syspath (c_as_parameter ctx) name) w)
      else (Inl ResolutionFailure,
            log_call (Call_device_new_from_syspath (c_as_parameter ctx) name) w))"

text \<open>
  The conversion of an object to a native parameter reads its \<^verbatim>\<open>_as_parameter_\<close>
  attribute; an object without one is refused before the native function is entered.
\<close>

definition enumerator_param :: "enumerator_obj \<Rightarrow> error + handle" where
  "enumerator_param self =
     (case e_as_parameter self of None \<Rightarrow> Inl InvalidArgument | Some h \<Rightarrow> Inr h)"

fun device_param :: "pyvalue \<Rightarrow> error + bytes" where
  "device_param (PDevice d) = Inr (dev_path d)"
| "device_param _ = Inl InvalidArgument"

subsection \<open>Sequencing\<close>

text \<open>
  A statement that raises ends the method; the statements after it are not run.
\<close>

definition returns :: "'a \<Rightarrow> 'a py" where
  "returns x w = (Inr x, w)"

definition and_then :: "'a py \<Rightarrow> ('a \<Rightarrow> 'b py) \<Rightarrow> 'b py" where
  "and_then m f w = (case m w of (Inl e, w') \<Rightarrow> (Inl e, w') | (Inr x, w') \<Rightarrow> f x w')"

subsection \<open>class Context\<close>

text \<open>
  \<^verbatim>\<open>Context.__init__\<close>: \<^verbatim>\<open>self._as_parameter_ = libudev.udev_new()\<close>.
\<close>

definition Context_init :: "context_obj py" where
  "Context_init w = (let (h, w') = udev_new w in (Inr \<lparr>c_as_parameter = h\<rparr>, w'))"

text \<open>
  \<^verbatim>\<open>Context.__del__\<close>: \<^verbatim>\<open>libudev.udev_unref(self)\<close>.
\<close>

definition Context_del :: "context_obj \<Rightarrow> unit py" where
  "Context_del self w = (Inr (), udev_unref (c_as_parameter self) w)"

subsection \<open>class Enumerator\<close>

text \<open>
  The object \<^verbatim>\<open>__init__\<close> receives has no attribute yet.
\<close>

definition blank_enumerator :: enumerator_obj where
  "blank_enumerator = \<lparr>e_context = None, e_as_parameter = None\<rparr>"

text \<open>
  \<^verbatim>\<open>isinstance(context, Context)\<close>.
\<close>

fun isinstance_Context :: "pyvalue \<Rightarrow> context_obj option" where
  "isinstance_Context (PContext c) = Some c"
| "isinstance_Context _ = None"

text \<open>
  \<^verbatim>\<open>Enumerator.__init__\<close>. It is the one method that assigns attributes, so it returns
  the object as it is when the method ends, also when it ends by raising:
  \<^verbatim>\<open>
  if not isinstance(context, Context):
      raise TypeError('Invalid context object')
  self.context = context
  self._as_parameter_ = libudev.udev_enumerate_new(context)
  \<close>
\<close>

definition Enumerator_init ::
  "enumerator_obj \<Rightarrow> pyvalue \<Rightarrow> world \<Rightarrow> (error + unit) \<times> enumerator_obj \<times> world" where
  "Enumerator_init self context w =
     (case isinstance_Context context of
        None \<Rightarrow> (Inl TypeError, self, w)
      | Some c \<Rightarrow>
          (let self1 = self\<lparr>e_context := Some c\<rparr>;
               (h, w') = udev_enumerate_new (c_as_parameter c) w
           in (Inr (), self1\<lparr>e_as_parameter := Some h\<rparr>, w')))"

text \<open>
  The expression \<^verbatim>\<open>Enumerator(context)\<close>: a new object, initialised by \<^verbatim>\<open>__init__\<close>.
\<close>

definition Enumerator :: "pyvalue \<Rightarrow> enumerator_obj py" where
  "Enumerator context w =
     (case Enumerator_init blank_enumerator context w of
        (Inl e, _, w') \<Rightarrow> (Inl e, w')
      | (Inr _, self, w') \<Rightarrow> (Inr self, w'))"

text \<open>
  \<^verbatim>\<open>Enumerator.__del__\<close>: \<^verbatim>\<open>libudev.udev_enumerate_unref(self)\<close>.
\<close>

definition Enumerator_del :: "enumerator_obj \<Rightarrow> unit py" where
  "Enumerator_del self w =
     (case enumerator_param self of
        Inl e \<Rightarrow> (Inl e, w)
      | Inr h \<Rightarrow> (Inr (), udev_enumerate_unref h w))"

text \<open>
  The single-purpose filter methods. Each evaluates its arguments, calls the native
  function on \<^verbatim>\<open>self\<close> and ends with \<^verbatim>\<open>return self\<close>.
\<close>

definition match_subsystem :: "enumerator_obj \<Rightarrow> pyvalue \<Rightarrow> enumerator_obj py" where
  "match_subsystem self subsystem w =
     (case ensure_byte_string subsystem of
        Inl e \<Rightarrow> (Inl e, w)
      | Inr s \<Rightarrow>
          (case enumerator_param self of
             Inl e \<Rightarrow> (Inl e, w)
           | Inr h \<Rightarrow> (Inr self, udev_enumerate_add_match_subsystem h s w)))"

definition match_sys_name :: "enumerator_obj \<Rightarrow> pyvalue \<Rightarrow> enumerator_obj py" where
  "match_sys_name self sys_name w =
     (case ensure_byte_string sys_name of
        Inl e \<Rightarrow> (Inl e, w)
      | Inr s \<Rightarrow>
          (case enumerator_param self of
             Inl e \<Rightarrow> (Inl e, w)
           | Inr h \<Rightarrow> (Inr self, udev_enumerate_add_match_sysname h s w)))"

definition match_property :: "enumerator_obj \<Rightarrow> pyvalue \<Rightarrow> pyvalue \<Rightarrow> enumerator_obj py" where
  "match_property self property value w =
     (case ensure_byte_string property of
        Inl e \<Rightarrow> (Inl e, w)
      | Inr k \<Rightarrow>
          (let v = property_value_to_bytes value
           in case enumerator_param self of
                Inl e \<Rightarrow> (Inl e, w)
              | Inr h \<Rightarrow> (Inr self, udev_enumerate_add_match_property h k v w)))"

definition match_attribute :: "enumerator_obj \<Rightarrow> pyvalue \<Rightarrow> pyvalue \<Rightarrow> enumerator_obj py" where
  "match_attribute self attribute value w =
     (case ensure_byte_string attribute of
        Inl e \<Rightarrow> (Inl e, w)
      | Inr k \<Rightarrow>
          (let v = property_value_to_bytes value
           in case enumerator_param self of
                Inl e \<Rightarrow> (Inl e, w)
              | Inr h \<Rightarrow> (Inr self, udev_enumerate_add_match_sysattr h k v w)))"

definition match_tag :: "enumerator_obj \<Rightarrow> pyvalue \<Rightarrow> enumerator_obj py" where
  "match_tag self tag w =
     (case ensure_byte_string tag of
        Inl e \<Rightarrow> (Inl e, w)
      | Inr t \<Rightarrow>
          (case enumerator_param self of
             Inl e \<Rightarrow> (Inl e, w)
           | Inr h \<Rightarrow> (Inr self, udev_enumerate_add_match_tag h t w)))"

definition match_is_initialized :: "enumerator_obj \<Rightarrow> enumerator_obj py" where
  "match_is_initialized self w =
     (case enumerator_param self of
        Inl e \<Rightarrow> (Inl e, w)
      | Inr h \<Rightarrow> (Inr self, udev_enumerate_add_match_is_initialized h w))"

definition match_parent :: "enumerator_obj \<Rightarrow> pyvalue \<Rightarrow> enumerator_obj py" where
  "match_parent self parent w =
     (case enumerator_param self of
        Inl e \<Rightarrow> (Inl e, w)
      | Inr h \<Rightarrow>
          (case device_param parent of
             Inl e \<Rightarrow> (Inl e, w)
           | Inr p \<Rightarrow> (Inr self, udev_enumerate_add_match_parent h p w)))"

text \<open>
  \<^verbatim>\<open>kwargs.pop(key, default)\<close> on the keyword dictionary, given as the list of its items
  in the order \<^verbatim>\<open>iteritems()\<close> goes through them.
\<close>

definition dict_pop :: "kwargs \<Rightarrow> string \<Rightarrow> pyvalue \<Rightarrow> pyvalue \<times> kwargs" where
  "dict_pop kw key dflt =
     (case map_of kw key of
        None \<Rightarrow> (dflt, kw)
      | Some v \<Rightarrow> (v, filter (\<lambda>(k, _). k \<noteq> key) kw))"

text \<open>
  The loop \<^verbatim>\<open>for property, value in kwargs.iteritems(): self.match_property(property, value)\<close>.
  A keyword name is a byte string.
\<close>

fun match_properties :: "enumerator_obj \<Rightarrow> kwargs \<Rightarrow> unit py" where
  "match_properties self [] w = (Inr (), w)"
| "match_properties self ((property, value) # items) w =
     (case match_property self (PBytes property) value w of
        (Inl e, w') \<Rightarrow> (Inl e, w')
      | (Inr _, w') \<Rightarrow> match_properties self items w')"

text \<open>
  \<^verbatim>\<open>Enumerator.match\<close>:
  \<^verbatim>\<open>
  subsystem = kwargs.pop('subsystem', None)
  if subsystem is not None:
      self.match_subsystem(subsystem)
  sys_name = kwargs.pop('sys_name', None)
  if sys_name is not None:
      self.match_sys_name(sys_name)
  tag = kwargs.pop('tag', None)
  if tag is not None:
      self.match_tag(tag)
  parent = kwargs.pop('parent', None)
  if parent is not None:
      self.match_parent(parent)
  for property, value in kwargs.iteritems():
      self.match_property(property, value)
  return self
  \<close>
\<close>

definition match :: "enumerator_obj \<Rightarrow> kwargs \<Rightarrow> enumerator_obj py" where
  "match self kwargs =
     (let (subsystem, kw1) = dict_pop kwargs ''subsystem'' PNone in
      and_then (if subsystem \<noteq> PNone then match_subsystem self subsystem else returns self) (\<lambda>_.
      let (sys_name, kw2) = dict_pop kw1 ''sys_name'' PNone in
      and_then (if sys_name \<noteq> PNone then match_sys_name self sys_name else returns self) (\<lambda>_.
      let (tag, kw3) = dict_pop kw2 ''tag'' PNone in
      and_then (if tag \<noteq> PNone then match_tag self tag else returns self) (\<lambda>_.
      let (parent, kw4) = dict_pop kw3 ''parent'' PNone in
      and_then (if parent \<noteq> PNone then match_parent self parent else returns self) (\<lambda>_.
      and_then (match_properties self kw4) (\<lambda>_.
      returns self))))))"

text \<open>
  \<^verbatim>\<open>Context.list_devices\<close>: \<^verbatim>\<open>return Enumerator(self).match(**kwargs)\<close>.
\<close>

definition list_devices :: "context_obj \<Rightarrow> kwargs \<Rightarrow> enumerator_obj py" where
  "list_devices self kwargs = and_then (Enumerator (PContext self)) (\<lambda>e. match e kwargs)"

subsection \<open>Iteration\<close>

text \<open>
  \<^verbatim>\<open>Enumerator.__iter__\<close> contains \<^verbatim>\<open>yield\<close>, so it is a generator function: the call
  returns a generator object and runs nothing of the body; the body runs, up to the next
  \<^verbatim>\<open>yield\<close>, each time the generator is advanced.
  \<^verbatim>\<open>
  libudev.udev_enumerate_scan_devices(self)
  entry = libudev.udev_enumerate_get_list_entry(self)
  for name, _ in udev_list_iterate(entry):
      yield Device.from_sys_path(self.context, name)
  \<close>
  A generator is created, suspended at the \<^verbatim>\<open>yield\<close> with the entries still to come, or
  finished. The walk of \<^verbatim>\<open>udev_list_iterate\<close> through the native list is the walk
  through the list of entries; its native calls are not logged.
\<close>

datatype gen_state = GenCreated | GenSuspended "(bytes \<times> bytes) list" | GenFinished

record generator =
  g_self :: enumerator_obj
  g_state :: gen_state

definition Enumerator_iter :: "enumerator_obj \<Rightarrow> generator py" where
  "Enumerator_iter self w = (Inr \<lparr>g_self = self, g_state = GenCreated\<rparr>, w)"

text \<open>
  The loop of the body from its head: the end of the list ends the generator (\<open>None\<close>
  is Python's \<^verbatim>\<open>StopIteration\<close>), an entry is resolved and yielded.
\<close>

fun resume_loop ::
  "enumerator_obj \<Rightarrow> (bytes \<times> bytes) list \<Rightarrow> world \<Rightarrow>
     (error + device_obj option) \<times> gen_state \<times> world" where
  "resume_loop self [] w = (Inr None, GenFinished, w)"
| "resume_loop self ((name, _) # rest) w =
     (case e_context self of
        None \<Rightarrow> (Inl AttributeError, GenFinished, w)
      | Some c \<Rightarrow>
          (case from_sys_path c name w of
             (Inl e, w') \<Rightarrow> (Inl e, GenFinished, w')
           | (Inr d, w') \<Rightarrow> (Inr (Some d), GenSuspended rest, w')))"

text \<open>
  One advance of the generator (\<^verbatim>\<open>next\<close>).
\<close>

definition generator_next ::
  "generator \<Rightarrow> world \<Rightarrow> (error + device_obj option) \<times> generator \<times> world" where
  "generator_next g w =
     (case g_state g of
        GenCreated \<Rightarrow>
          (case enumerator_param (g_self g) of
             Inl e \<Rightarrow> (Inl e, g\<lparr>g_state := GenFinished\<rparr>, w)
           | Inr h \<Rightarrow>
               (let w1 = udev_enumerate_scan_devices h w;
                    (entry, w2) = udev_enumerate_get_list_entry h w1;
                    (r, st, w3) = resume_loop (g_self g) entry w2
                in (r, g\<lparr>g_state := st\<rparr>, w3)))
      | GenSuspended rest \<Rightarrow>
          (let (r, st, w') = resume_loop (g_self g) rest w in (r, g\<lparr>g_state := st\<rparr>, w'))
      | GenFinished \<Rightarrow> (Inr None, g, w))"

text \<open>
  A bound on the advances a generator has left, for the termination of a full iteration.
\<close>

fun steps_left :: "gen_state \<Rightarrow> world \<Rightarrow> nat" where
  "steps_left GenCreated w = length (registry w) + 2"
| "steps_left (GenSuspended rest) w = length rest + 1"
| "steps_left GenFinished w = 0"

lemma resume_loop_yield:
  "resume_loop self es w = (Inr (Some d), st, w') \<Longrightarrow>
     \<exists>e rest. es = e # rest \<and> st = GenSuspended rest"
  by (cases es) (auto split: option.splits prod.splits sum.splits)

lemma length_scan_result: "length (scan_result ps reg) \<le> length reg"
  by (simp add: scan_result_def)

lemma generator_next_decreases:
  "generator_next g w = (Inr (Some d), g', w') \<Longrightarrow>
     steps_left (g_state g') w' < steps_left (g_state g) w"
proof (cases "g_state g")
  case GenCreated
  assume nxt: "generator_next g w = (Inr (Some d), g', w')"
  from nxt GenCreated obtain h where h: "enumerator_param (g_self g) = Inr h"
    by (cases "enumerator_param (g_self g)") (auto simp: generator_next_def)
  define w2 where "w2 = log_call (Call_get_list_entry h) (udev_enumerate_scan_devices h w)"
  define entry where "entry = scan_result (en_matches (enums w h)) (registry w)"
  obtain r st w3 where rl: "resume_loop (g_self g) entry w2 = (r, st, w3)"
    by (cases "resume_loop (g_self g) entry w2") auto
  have "generator_next g w = (r, g\<lparr>g_state := st\<rparr>, w3)"
    using GenCreated h rl
    by (simp add: generator_next_def udev_enumerate_get_list_entry_def
        udev_enumerate_scan_devices_def log_call_def w2_def entry_def)
  with nxt have r: "r = Inr (Some d)" and g': "g' = g\<lparr>g_state := st\<rparr>" by simp_all
  from rl r obtain e rest where "entry = e # rest" "st = GenSuspended rest"
    using resume_loop_yield by blast
  moreover have "length entry \<le> length (registry w)"
    by (simp add: entry_def length_scan_result)
  ultimately show ?thesis using GenCreated g' by simp
next
  case (GenSuspended es)
  assume nxt: "generator_next g w = (Inr (Some d), g', w')"
  obtain r st w3 where rl: "resume_loop (g_self g) es w = (r, st, w3)"
    by (cases "resume_loop (g_self g) es w") auto
  with nxt GenSuspended have r: "r = Inr (Some d)" and g': "g' = g\<lparr>g_state := st\<rparr>"
    by (simp_all add: generator_next_def)
  from rl r obtain e rest where "es = e # rest" "st = GenSuspended rest"
    using resume_loop_yield by blast
  then show ?thesis using GenSuspended g' by simp
next
  case GenFinished
  assume "generator_next g w = (Inr (Some d), g', w')"
  with GenFinished show ?thesis by (simp add: generator_next_def)
qed

text \<open>
  A full iteration advances the generator until it ends or raises, and collects what it
  yields: the loop behind \<^verbatim>\<open>for device in enumerator\<close> and \<^verbatim>\<open>list(enumerator)\<close>.
\<close>

function drain :: "generator \<Rightarrow> world \<Rightarrow> (error + device_obj list) \<times> world" where
  "drain g w =
     (case generator_next g w of
        (Inl e, g', w') \<Rightarrow> (Inl e, w')
      | (Inr None, g', w') \<Rightarrow> (Inr [], w')
      | (Inr (Some d), g', w') \<Rightarrow>
          (case drain g' w' of
             (Inl e, w'') \<Rightarrow> (Inl e, w'')
           | (Inr ds, w'') \<Rightarrow> (Inr (d # ds), w'')))"
  by pat_completeness auto
termination
proof (relation "measure (\<lambda>(g, w). steps_left (g_state g) w)")
  show "wf (measure (\<lambda>(g, w). steps_left (g_state g) w))" by simp
next
  fix g w r gw g' w' o' d
  assume "(r, gw) = generator_next g w" "(g', w') = gw" "r = Inr o'" "o' = Some d"
  then have "generator_next g w = (Inr (Some d), g', w')" by simp
  then show "((g', w'), g, w) \<in> measure (\<lambda>(g, w). steps_left (g_state g) w)"
    using generator_next_decreases by simp
qed

declare drain.simps [simp del]

definition iterate :: "enumerator_obj \<Rightarrow> device_obj list py" where
  "iterate self = and_then (Enumerator_iter self) drain"

subsection \<open>Calls on an enumerator\<close>

text \<open>
  The filter-adding methods as data, to speak about sequences of calls.
\<close>

datatype filter_call =
    Match kwargs
  | Match_subsystem pyvalue
  | Match_sys_name pyvalue
  | Match_property pyvalue pyvalue
  | Match_attribute pyvalue pyvalue
  | Match_tag pyvalue
  | Match_is_initialized
  | Match_parent pyvalue

fun call_filter :: "enumerator_obj \<Rightarrow> filter_call \<Rightarrow> enumerator_obj py" where
  "call_filter self (Match kw) = match self kw"
| "call_filter self (Match_subsystem s) = match_subsystem self s"
| "call_filter self (Match_sys_name n) = match_sys_name self n"
| "call_filter self (Match_property k v) = match_property self k v"
| "call_filter self (Match_attribute k v) = match_attribute self k v"
| "call_filter self (Match_tag t) = match_tag self t"
| "call_filter self Match_is_initialized = match_is_initialized self"
| "call_filter self (Match_parent p) = match_parent self p"

text \<open>
  A chained expression \<^verbatim>\<open>e.f1(...).f2(...)...\<close>: each call is made on what the call
  before it returned.
\<close>

fun chain :: "enumerator_obj \<Rightarrow> filter_call list \<Rightarrow> enumerator_obj py" where
  "chain self [] w = (Inr self, w)"
| "chain self (c # cs) w =
     (case call_filter self c w of
        (Inl e, w') \<Rightarrow> (Inl e, w')
      | (Inr self', w') \<Rightarrow> chain self' cs w')"

text \<open>
  A sequence of statements \<^verbatim>\<open>self.f1(...); self.f2(...); ...\<close>: each call is made on
  \<^verbatim>\<open>self\<close> and its result is dropped.
\<close>

fun run_calls :: "enumerator_obj \<Rightarrow> filter_call list \<Rightarrow> unit py" where
  "run_calls self [] w = (Inr (), w)"
| "run_calls self (c # cs) w =
     (case call_filter self c w of
        (Inl e, w') \<Rightarrow> (Inl e, w')
      | (Inr _, w') \<Rightarrow> run_calls self cs w')"

subsection \<open>The routing of keyword arguments, as specified\<close>

text \<open>
  The keywords \<^verbatim>\<open>match\<close> recognizes.
\<close>

definition recognized :: "string list" where
  "recognized = [''subsystem'', ''sys_name'', ''tag'', ''parent'']"

text \<open>
  The routing as the specification words it (section 4.2): a recognized keyword routes to
  its single-purpose method, every other keyword is a property name whose value goes to
  the property filter; first subsystem, then sys_name, then tag, then parent, then the
  properties.
\<close>

definition route_as_stated ::
  "kwargs \<Rightarrow> string \<Rightarrow> (pyvalue \<Rightarrow> filter_call) \<Rightarrow> filter_call list" where
  "route_as_stated kw key method =
     (case map_of kw key of
        None \<Rightarrow> []
      | Some v \<Rightarrow> [method v])"

definition calls_as_stated :: "kwargs \<Rightarrow> filter_call list" where
  "calls_as_stated kw =
     route_as_stated kw ''subsystem'' Match_subsystem @
     route_as_stated kw ''sys_name'' Match_sys_name @
     route_as_stated kw ''tag'' Match_tag @
     route_as_stated kw ''parent'' Match_parent @
     map (\<lambda>(k, v). Match_property (PBytes k) v) (filter (\<lambda>(k, _). k \<notin> set recognized) kw)"

text \<open>
  The same routing, except that a recognized keyword whose value is \<^verbatim>\<open>None\<close> routes
  nowhere.
\<close>

definition route :: "kwargs \<Rightarrow> string \<Rightarrow> (pyvalue \<Rightarrow> filter_call) \<Rightarrow> filter_call list" where
  "route kw key method =
     (case map_of kw key of
        None \<Rightarrow> []
      | Some v \<Rightarrow> if v = PNone then [] else [method v])"

definition routed_calls :: "kwargs \<Rightarrow> filter_call list" where
  "routed_calls kw =
     route kw ''subsystem'' Match_subsystem @
     route kw ''sys_name'' Match_sys_name @
     route kw ''tag'' Match_tag @
     route kw ''parent'' Match_parent @
     map (\<lambda>(k, v). Match_property (PBytes k) v) (filter (\<lambda>(k, _). k \<notin> set recognized) kw)"

text \<open>
  \<^verbatim>\<open>list_devices\<close> as the specification words it (section 4.1): it constructs a new
  Enumerator bound to this Context, applies the given filter set to it and returns the
  Enumerator.
\<close>

definition spec_list_devices :: "context_obj \<Rightarrow> kwargs \<Rightarrow> enumerator_obj py" where
  "spec_list_devices c kw w =
     (let (h, w1) = udev_enumerate_new (c_as_parameter c) w;
          e = \<lparr>e_context = Some c, e_as_parameter = Some h\<rparr>
      in case run_calls e (routed_calls kw) w1 of
           (Inl x, w2) \<Rightarrow> (Inl x, w2)
         | (Inr _, w2) \<Rightarrow> (Inr e, w2))"

subsection \<open>What an iteration does\<close>

text \<open>
  The scan and the retrieval of the list head among the native calls of a log.
\<close>

fun is_scan_call :: "native_call \<Rightarrow> bool" where
  "is_scan_call (Call_scan_devices _) = True"
| "is_scan_call (Call_get_list_entry _) = True"
| "is_scan_call _ = False"

definition scan_calls :: "native_call list \<Rightarrow> native_call list" where
  "scan_calls cs = filter is_scan_call cs"

text \<open>
  The devices that the entries of a list resolve to with a context, and the native calls
  that resolve them.
\<close>

definition resolved :: "context_obj \<Rightarrow> (bytes \<times> bytes) list \<Rightarrow> device_obj list" where
  "resolved c es = map (\<lambda>x. \<lparr>dev_context = c, dev_path = fst x\<rparr>) es"

definition resolutions :: "context_obj \<Rightarrow> (bytes \<times> bytes) list \<Rightarrow> native_call list" where
  "resolutions c es = map (\<lambda>x. Call_device_new_from_syspath (c_as_parameter c) (fst x)) es"

subsection \<open>Example data\<close>

text \<open>
  A world in which nothing has been created yet, and a small registry: a disk, one of
  its partitions, an optical drive, a loop device and a network interface.
\<close>

definition empty_world :: "udev_device list \<Rightarrow> world" where
  "empty_world reg =
     \<lparr>registry = reg, udev_refs = (\<lambda>_. 0), next_udev = 0,
      enums = (\<lambda>_. \<lparr>en_udev = 0, en_refs = 0, en_matches = [], en_list = []\<rparr>),
      next_enum = 0, calls = []\<rparr>"

definition example_registry :: "udev_device list" where
  "example_registry =
     [\<lparr>d_sys_path = ''/sys/sda'', d_subsystem = ''block'', d_sys_name = ''sda'',
       d_properties = [(''DEVTYPE'', ''disk''), (''ID_TYPE'', ''disk'')],
       d_attributes = [(''ro'', ''0'')], d_tags = [''seat''], d_is_initialized = True\<rparr>,
      \<lparr>d_sys_path = ''/sys/sda/sda1'', d_subsystem = ''block'', d_sys_name = ''sda1'',
       d_properties = [(''DEVTYPE'', ''partition''), (''ID_TYPE'', ''disk'')],
       d_attributes = [(''ro'', ''0'')], d_tags = [], d_is_initialized = True\<rparr>,
      \<lparr>d_sys_path = ''/sys/sr0'', d_subsystem = ''block'', d_sys_name = ''sr0'',
       d_properties = [(''DEVTYPE'', ''disk''), (''ID_TYPE'', ''cd'')],
       d_attributes = [(''ro'', ''1'')], d_tags = [''seat''], d_is_initialized = True\<rparr>,
      \<lparr>d_sys_path = ''/sys/loop0'', d_subsystem = ''block'', d_sys_name = ''loop0'',
       d_properties = [(''DEVTYPE'', ''loop'')],
       d_attributes = [], d_tags = [], d_is_initialized = False\<rparr>,
      \<lparr>d_sys_path = ''/sys/eth0'', d_subsystem = ''net'', d_sys_name = ''eth0'',
       d_properties = [(''ID_TYPE'', ''disk'')],
       d_attributes = [], d_tags = [], d_is_initialized = True\<rparr>]"

text \<open>
  The first context and the first enumerator created in an empty world, and the world
  after their creation.
\<close>

definition example_context :: context_obj where
  "example_context = \<lparr>c_as_parameter = 0\<rparr>"

definition example_enumerator :: enumerator_obj where
  "example_enumerator = \<lparr>e_context = Some example_context, e_as_parameter = Some 0\<rparr>"

definition example_world :: world where
  "example_world =
     snd (Enumerator (PContext example_context) (snd (Context_init (empty_world example_registry))))"

section \<open>Properties\<close>

subsection \<open>Auxiliary facts\<close>

lemmas add_match_defs =
  udev_enumerate_add_match_subsystem_def udev_enumerate_add_match_sysname_def
  udev_enumerate_add_match_property_def udev_enumerate_add_match_sysattr_def
  udev_enumerate_add_match_tag_def udev_enumerate_add_match_is_initialized_def
  udev_enumerate_add_match_parent_def

lemmas method_defs =
  match_subsystem_def match_sys_name_def match_property_def match_attribute_def
  match_tag_def match_is_initialized_def match_parent_def

lemma and_then_assoc:
  "and_then (and_then m f) g = and_then m (\<lambda>x. and_then (f x) g)"
  by (rule ext) (simp add: and_then_def split: prod.splits sum.splits)

lemma and_then_returns_left: "and_then (returns x) f = f x"
  by (rule ext) (simp add: and_then_def returns_def)

lemma example_world_eq:
  "example_world =
     \<lparr>registry = example_registry, udev_refs = (\<lambda>_. 0)(0 := 1), next_udev = Suc 0,
      enums = (\<lambda>_. \<lparr>en_udev = 0, en_refs = 0, en_matches = [], en_list = []\<rparr>)
                (0 := \<lparr>en_udev = 0, en_refs = 1, en_matches = [], en_list = []\<rparr>),
      next_enum = Suc 0, calls = [Call_udev_new 0, Call_enumerate_new 0 0]\<rparr>"
  by (simp add: example_world_def example_context_def Enumerator_def Enumerator_init_def
      Context_init_def udev_new_def udev_enumerate_new_def log_call_def empty_world_def
      blank_enumerator_def)

lemma example_enumerator_created:
  "Enumerator (PContext example_context) (snd (Context_init (empty_world example_registry))) =
     (Inr example_enumerator, example_world)"
  by (simp add: example_world_def example_enumerator_def example_context_def Enumerator_def
      Enumerator_init_def Context_init_def udev_new_def udev_enumerate_new_def log_call_def
      empty_world_def blank_enumerator_def)

text \<open>Every filter method returns the object it was called on.\<close>

lemma method_returns_self:
  "match_subsystem self a w = (Inr e, w') \<Longrightarrow> e = self"
  "match_sys_name self a w = (Inr e, w') \<Longrightarrow> e = self"
  "match_property self a b w = (Inr e, w') \<Longrightarrow> e = self"
  "match_attribute self a b w = (Inr e, w') \<Longrightarrow> e = self"
  "match_tag self a w = (Inr e, w') \<Longrightarrow> e = self"
  "match_is_initialized self w = (Inr e, w') \<Longrightarrow> e = self"
  "match_parent self a w = (Inr e, w') \<Longrightarrow> e = self"
  by (auto simp: method_defs split: sum.splits)

lemma match_returns_self: "match self kw w = (Inr e, w') \<Longrightarrow> e = self"
  by (auto simp: match_def and_then_def returns_def Let_def split: prod.splits sum.splits if_splits)

lemma call_filter_returns_self: "call_filter self c w = (Inr e, w') \<Longrightarrow> e = self"
  by (cases c) (auto dest: method_returns_self match_returns_self)

lemma chain_run_calls:
  "chain self cs w = and_then (run_calls self cs) (\<lambda>_. returns self) w"
proof (induction cs arbitrary: w)
  case Nil
  show ?case by (simp add: and_then_def returns_def)
next
  case (Cons c cs)
  show ?case
  proof (cases "call_filter self c w")
    case (Pair r w')
    show ?thesis
    proof (cases r)
      case (Inl x)
      with Pair show ?thesis by (simp add: and_then_def)
    next
      case (Inr e)
      with Pair have "e = self" by (auto dest: call_filter_returns_self)
      with Pair Inr Cons.IH [of w'] show ?thesis by (simp add: and_then_def)
    qed
  qed
qed

text \<open>The keyword dictionary after a pop, and a lookup in what is left.\<close>

lemma filter_absent_key:
  "map_of kw key = None \<Longrightarrow> filter (\<lambda>(k, _). k \<noteq> key) kw = kw"
  by (induction kw) (auto split: if_splits)

lemma dict_pop_eq:
  "dict_pop kw key PNone =
     (case map_of kw key of None \<Rightarrow> PNone | Some v \<Rightarrow> v, filter (\<lambda>(k, _). k \<noteq> key) kw)"
  by (simp add: dict_pop_def filter_absent_key split: option.splits)

lemma map_of_filter_keep:
  "(\<And>v. P (key, v)) \<Longrightarrow> map_of (filter P kw) key = map_of kw key"
  by (induction kw) auto

lemma filter_recognized:
  "filter (\<lambda>(k, _). k \<noteq> ''parent'') (filter (\<lambda>(k, _). k \<noteq> ''tag'')
     (filter (\<lambda>(k, _). k \<noteq> ''sys_name'') (filter (\<lambda>(k, _). k \<noteq> ''subsystem'') kw)))
   = filter (\<lambda>(k, _). k \<notin> set recognized) kw"
  by (induction kw) (auto simp: recognized_def)

text \<open>Sequences of calls.\<close>

lemma run_calls_append:
  "run_calls self (xs @ ys) = and_then (run_calls self xs) (\<lambda>_. run_calls self ys)"
proof (rule ext)
  fix w
  show "run_calls self (xs @ ys) w = and_then (run_calls self xs) (\<lambda>_. run_calls self ys) w"
    by (induction xs arbitrary: w) (auto simp: and_then_def split: prod.splits sum.splits)
qed

lemma run_calls_Nil: "run_calls self [] = returns ()"
  by (rule ext) (simp add: returns_def)

lemma run_calls_single:
  "run_calls self [c] = and_then (call_filter self c) (\<lambda>_. returns ())"
  by (rule ext) (simp add: and_then_def returns_def split: prod.splits sum.splits)

lemma match_properties_run_calls:
  "match_properties self kw = run_calls self (map (\<lambda>(k, v). Match_property (PBytes k) v) kw)"
proof (rule ext)
  fix w
  show "match_properties self kw w =
          run_calls self (map (\<lambda>(k, v). Match_property (PBytes k) v) kw) w"
    by (induction kw arbitrary: w) (auto split: prod.splits sum.splits)
qed

lemma guarded_call:
  assumes "\<And>v. call_filter self (mk v) = m v"
  shows "and_then (if (case map_of kw key of None \<Rightarrow> PNone | Some v \<Rightarrow> v) \<noteq> PNone
                   then m (case map_of kw key of None \<Rightarrow> PNone | Some v \<Rightarrow> v)
                   else returns self) (\<lambda>_. k)
         = and_then (run_calls self (route kw key mk)) (\<lambda>_. k)"
  by (simp add: route_def run_calls_Nil run_calls_single and_then_assoc and_then_returns_left
      assms [symmetric] split: option.splits)

text \<open>
  \<^verbatim>\<open>match\<close> is the sequence of the routed calls, each on \<^verbatim>\<open>self\<close>, followed by
  \<^verbatim>\<open>return self\<close>.
\<close>

lemma match_as_calls:
  "match self kw = and_then (run_calls self (routed_calls kw)) (\<lambda>_. returns self)"
proof -
  have route_other:
    "route (filter (\<lambda>(k, _). k \<noteq> ''subsystem'') kw) ''sys_name'' = route kw ''sys_name''"
    "route (filter (\<lambda>(k, _). k \<noteq> ''sys_name'') (filter (\<lambda>(k, _). k \<noteq> ''subsystem'') kw)) ''tag''
       = route kw ''tag''"
    "route (filter (\<lambda>(k, _). k \<noteq> ''tag'') (filter (\<lambda>(k, _). k \<noteq> ''sys_name'')
        (filter (\<lambda>(k, _). k \<noteq> ''subsystem'') kw))) ''parent'' = route kw ''parent''"
    by (rule ext, simp add: route_def map_of_filter_keep)+
  show ?thesis
    unfolding match_def dict_pop_eq Let_def prod.case
    apply (subst guarded_call [where mk = Match_subsystem], simp)
    apply (subst guarded_call [where mk = Match_sys_name], simp)
    apply (subst guarded_call [where mk = Match_tag], simp)
    apply (subst guarded_call [where mk = Match_parent], simp)
    apply (simp add: routed_calls_def run_calls_append and_then_assoc route_other
        filter_recognized match_properties_run_calls del: filter_filter)
    done
qed

lemma int_text_1: "int_text 1 = ''1''"
  by (simp add: int_text_def nat_text.simps digit_char_def)

lemma int_text_0: "int_text 0 = ''0''"
  by (simp add: int_text_def nat_text.simps digit_char_def)

text \<open>The example enumerator, and a keyword passed as \<^verbatim>\<open>None\<close>.\<close>

lemma example_facts:
  "e_as_parameter example_enumerator = Some 0"
  "e_context example_enumerator = Some example_context"
  "enumerator_param example_enumerator = Inr 0"
  by (simp_all add: example_enumerator_def enumerator_param_def)

lemma map_of_insert_None:
  assumes "key \<notin> fst ` set (kw1 @ kw2)"
  shows "map_of (kw1 @ (key, PNone) # kw2) k =
           (if k = key then Some PNone else map_of (kw1 @ kw2) k)"
proof -
  from assms have "map_of kw1 key = None"
    by (auto simp: map_of_eq_None_iff)
  then show ?thesis
    by (auto simp: map_add_def split: option.splits)
qed

lemma route_insert_None:
  assumes "key \<notin> fst ` set (kw1 @ kw2)"
  shows "route (kw1 @ (key, PNone) # kw2) k mk = route (kw1 @ kw2) k mk"
proof (cases "k = key")
  case True
  from assms have "map_of (kw1 @ kw2) key = None"
    by (simp only: map_of_eq_None_iff) simp
  with True assms show ?thesis
    by (simp add: route_def map_of_insert_None del: map_of_append)
next
  case False
  with assms show ?thesis
    by (simp add: route_def map_of_insert_None del: map_of_append)
qed

lemma routed_calls_insert_None:
  assumes "key \<in> set recognized" and "key \<notin> fst ` set (kw1 @ kw2)"
  shows "routed_calls (kw1 @ (key, PNone) # kw2) = routed_calls (kw1 @ kw2)"
  using assms(1) by (simp add: routed_calls_def route_insert_None [OF assms(2)])

text \<open>A full iteration, and each advance of a generator.\<close>

lemma drain_suspended:
  assumes "e_context self = Some c"
    and "\<forall>x\<in>set es. fst x \<in> d_sys_path ` set (registry w)"
  shows "drain \<lparr>g_self = self, g_state = GenSuspended es\<rparr> w =
           (Inr (resolved c es), w\<lparr>calls := calls w @ resolutions c es\<rparr>)"
  using assms(2)
proof (induction es arbitrary: w)
  case Nil
  show ?case
    by (subst drain.simps) (simp add: generator_next_def resolved_def resolutions_def)
next
  case (Cons x es)
  obtain n v where x: "x = (n, v)" by (cases x)
  define w' where "w' = log_call (Call_device_new_from_syspath (c_as_parameter c) n) w"
  from Cons.prems x have n: "n \<in> d_sys_path ` set (registry w)" by simp
  have nxt: "generator_next \<lparr>g_self = self, g_state = GenSuspended (x # es)\<rparr> w =
          (Inr (Some \<lparr>dev_context = c, dev_path = n\<rparr>),
           \<lparr>g_self = self, g_state = GenSuspended es\<rparr>, w')"
    using n assms(1) by (simp add: generator_next_def x from_sys_path_def w'_def)
  have "\<forall>x\<in>set es. fst x \<in> d_sys_path ` set (registry w')"
    using Cons.prems by (simp add: w'_def log_call_def)
  then have "drain \<lparr>g_self = self, g_state = GenSuspended es\<rparr> w' =
           (Inr (resolved c es), w'\<lparr>calls := calls w' @ resolutions c es\<rparr>)"
    by (rule Cons.IH)
  then have "drain \<lparr>g_self = self, g_state = GenSuspended (x # es)\<rparr> w =
           (Inr (\<lparr>dev_context = c, dev_path = n\<rparr> # resolved c es),
            w'\<lparr>calls := calls w' @ resolutions c es\<rparr>)"
    by (subst drain.simps) (simp add: nxt)
  then show ?case
    by (simp add: resolved_def resolutions_def x w'_def log_call_def)
qed

lemma scan_result_in_registry:
  "\<forall>x\<in>set (scan_result ps reg). fst x \<in> d_sys_path ` set reg"
  by (auto simp: scan_result_def)

lemma drain_created:
  assumes "e_as_parameter self = Some h"
  shows "drain \<lparr>g_self = self, g_state = GenCreated\<rparr> w =
           drain \<lparr>g_self = self, g_state = GenSuspended (scan_result (en_matches (enums w h)) (registry w))\<rparr>
             (log_call (Call_get_list_entry h) (udev_enumerate_scan_devices h w))"
proof -
  have "generator_next \<lparr>g_self = self, g_state = GenCreated\<rparr> w =
        generator_next \<lparr>g_self = self, g_state = GenSuspended (scan_result (en_matches (enums w h)) (registry w))\<rparr>
             (log_call (Call_get_list_entry h) (udev_enumerate_scan_devices h w))"
    using assms
    by (simp add: generator_next_def enumerator_param_def udev_enumerate_get_list_entry_def
        udev_enumerate_scan_devices_def log_call_def split: prod.splits)
  then show ?thesis
    by (subst drain.simps, subst (2) drain.simps) simp
qed

lemma iterate_result:
  assumes "e_context self = Some c" and "e_as_parameter self = Some h"
  shows "iterate self w =
           (Inr (resolved c (scan_result (en_matches (enums w h)) (registry w))),
            w\<lparr>enums := (enums w)
                  (h := (enums w h)\<lparr>en_list := scan_result (en_matches (enums w h)) (registry w)\<rparr>),
              calls := calls w @ Call_scan_devices h # Call_get_list_entry h #
                         resolutions c (scan_result (en_matches (enums w h)) (registry w))\<rparr>)"
proof -
  define entry where "entry = scan_result (en_matches (enums w h)) (registry w)"
  define w2 where "w2 = log_call (Call_get_list_entry h) (udev_enumerate_scan_devices h w)"
  have reg: "registry w2 = registry w"
    by (simp add: w2_def log_call_def udev_enumerate_scan_devices_def)
  have "\<forall>x\<in>set entry. fst x \<in> d_sys_path ` set (registry w2)"
    unfolding reg entry_def by (rule scan_result_in_registry)
  with assms(1) have "drain \<lparr>g_self = self, g_state = GenSuspended entry\<rparr> w2 =
           (Inr (resolved c entry), w2\<lparr>calls := calls w2 @ resolutions c entry\<rparr>)"
    by (rule drain_suspended)
  then have "iterate self w = (Inr (resolved c entry), w2\<lparr>calls := calls w2 @ resolutions c entry\<rparr>)"
    using drain_created [OF assms(2), of w]
    by (simp add: iterate_def and_then_def Enumerator_iter_def entry_def w2_def)
  then show ?thesis
    by (simp add: entry_def w2_def log_call_def udev_enumerate_scan_devices_def)
qed

lemma drain_created_result:
  assumes "e_context self = Some c" and "e_as_parameter self = Some h"
  shows "drain \<lparr>g_self = self, g_state = GenCreated\<rparr> w =
           (Inr (resolved c (scan_result (en_matches (enums w h)) (registry w))),
            w\<lparr>enums := (enums w)
                  (h := (enums w h)\<lparr>en_list := scan_result (en_matches (enums w h)) (registry w)\<rparr>),
              calls := calls w @ Call_scan_devices h # Call_get_list_entry h #
                         resolutions c (scan_result (en_matches (enums w h)) (registry w))\<rparr>)"
  using iterate_result [OF assms, of w]
  by (simp add: iterate_def and_then_def Enumerator_iter_def)

lemma scan_calls_append: "scan_calls (xs @ ys) = scan_calls xs @ scan_calls ys"
  by (simp add: scan_calls_def)

lemma scan_calls_resolutions: "scan_calls (resolutions c es) = []"
  by (induction es) (simp_all add: scan_calls_def resolutions_def)

lemma resume_loop_no_scan:
  "resume_loop self es w = (r, st, w') \<Longrightarrow>
     scan_calls (calls w') = scan_calls (calls w) \<and> st \<noteq> GenCreated"
  by (cases es)
     (auto simp: from_sys_path_def log_call_def scan_calls_def
           split: option.splits prod.splits sum.splits if_splits)

lemma later_advance_no_scan:
  assumes "g_state g \<noteq> GenCreated" and "generator_next g w = (r, g', w')"
  shows "scan_calls (calls w') = scan_calls (calls w) \<and> g_state g' \<noteq> GenCreated"
proof (cases "g_state g")
  case GenCreated
  with assms(1) show ?thesis by simp
next
  case (GenSuspended es)
  obtain r1 st w1 where rl: "resume_loop (g_self g) es w = (r1, st, w1)"
    by (cases "resume_loop (g_self g) es w") auto
  with assms(2) GenSuspended have "w' = w1" "g' = g\<lparr>g_state := st\<rparr>"
    by (simp_all add: generator_next_def)
  with resume_loop_no_scan [OF rl] show ?thesis by simp
next
  case GenFinished
  with assms(2) show ?thesis by (auto simp: generator_next_def)
qed

lemma first_advance_scans:
  assumes "e_context self = Some c" and "e_as_parameter self = Some h"
  shows "snd (snd (generator_next \<lparr>g_self = self, g_state = GenCreated\<rparr> w)) =
           w\<lparr>enums := (enums w)
                  (h := (enums w h)\<lparr>en_list := scan_result (en_matches (enums w h)) (registry w)\<rparr>),
              calls := calls w @ Call_scan_devices h # Call_get_list_entry h #
                 resolutions c (take 1 (scan_result (en_matches (enums w h)) (registry w)))\<rparr>"
proof (cases "scan_result (en_matches (enums w h)) (registry w)")
  case Nil
  with assms show ?thesis
    by (simp add: generator_next_def enumerator_param_def udev_enumerate_get_list_entry_def
        udev_enumerate_scan_devices_def log_call_def resolutions_def)
next
  case (Cons x es)
  obtain n v where x: "x = (n, v)" by (cases x)
  have "\<forall>x\<in>set (scan_result (en_matches (enums w h)) (registry w)).
          fst x \<in> d_sys_path ` set (registry w)"
    by (rule scan_result_in_registry)
  with Cons x have "n \<in> d_sys_path ` set (registry w)" by simp
  with assms Cons x show ?thesis
    by (simp add: generator_next_def enumerator_param_def udev_enumerate_get_list_entry_def
        udev_enumerate_scan_devices_def log_call_def resolutions_def from_sys_path_def)
qed

lemma construction_no_scan:
  "scan_calls (calls (snd (Enumerator arg w))) = scan_calls (calls w)"
  by (cases "isinstance_Context arg")
     (simp_all add: Enumerator_def Enumerator_init_def udev_enumerate_new_def log_call_def
        scan_calls_def Let_def)

lemma example_registry_paths:
  "registry example_world = example_registry"
  by (simp add: example_world_eq)

lemma all_kinds_complete: "k \<in> set all_kinds"
  by (cases k) (simp_all add: all_kinds_def)

lemma device_matches_iff:
  "device_matches ps d \<longleftrightarrow>
     (\<forall>k. (\<forall>p\<in>set ps. kind_of p \<noteq> k) \<or> (\<exists>p\<in>set ps. kind_of p = k \<and> matches p d))"
proof -
  have "kind_ok k ps d \<longleftrightarrow>
          (\<forall>p\<in>set ps. kind_of p \<noteq> k) \<or> (\<exists>p\<in>set ps. kind_of p = k \<and> matches p d)" for k
    by (auto simp: kind_ok_def filter_empty_conv list_ex_iff)
  then show ?thesis
    by (simp add: device_matches_def list_all_iff all_kinds_complete Ball_def)
qed

lemma device_matches_eq:
  "device_matches ps =
     (\<lambda>d. \<forall>k. (\<forall>p\<in>set ps. kind_of p \<noteq> k) \<or> (\<exists>p\<in>set ps. kind_of p = k \<and> matches p d))"
  by (rule ext) (rule device_matches_iff)

lemma resolved_scan_result:
  "resolved c (scan_result ps reg) =
     map (\<lambda>d. \<lparr>dev_context = c, dev_path = d_sys_path d\<rparr>) (filter (device_matches ps) reg)"
  by (simp add: resolved_def scan_result_def comp_def)

lemma docstring_filter:
  "device_matches [MSubsystem ''block'', MProperty ''ID_TYPE'' ''disk'', MProperty ''DEVTYPE'' ''disk'']
     = (\<lambda>d. d_subsystem d = ''block'' \<and>
        (map_of (d_properties d) ''ID_TYPE'' = Some ''disk'' \<or>
         map_of (d_properties d) ''DEVTYPE'' = Some ''disk''))"
  by (rule ext) (simp add: device_matches_def kind_ok_def all_kinds_def)

subsection \<open>Construction\<close>

text \<open>
  C5. For every argument that is not a \<^verbatim>\<open>Context\<close> instance, \<^verbatim>\<open>Enumerator(argument)\<close>
  raises \<open>TypeError\<close> with no state change: \<^verbatim>\<open>__init__\<close> leaves the object as it
  received it (no attribute is set) and leaves the world as it was (no native
  enumeration handle is acquired, no native call is made).
\<close>

theorem Enumerator_rejects_non_context:
  assumes "isinstance_Context arg = None"
  shows "Enumerator_init self arg w = (Inl TypeError, self, w)
       \<and> Enumerator arg w = (Inl TypeError, w)"
proof -
  from assms have init: "Enumerator_init obj arg w = (Inl TypeError, obj, w)" for obj
    by (simp add: Enumerator_init_def)
  then show ?thesis by (simp add: Enumerator_def)
qed

theorem Enumerator_rejects_non_context_witness:
  "isinstance_Context (PInt 5) = None
   \<and> Enumerator_init blank_enumerator (PInt 5) example_world =
       (Inl TypeError, blank_enumerator, example_world)
   \<and> Enumerator (PInt 5) example_world = (Inl TypeError, example_world)"
  using Enumerator_rejects_non_context [of "PInt 5" blank_enumerator example_world] by simp

text \<open>
  C4. For every context \<open>c\<close> and all keyword arguments \<open>kw\<close>, \<^verbatim>\<open>c.list_devices(**kw)\<close>
  is \<^verbatim>\<open>Enumerator(c).match(**kw)\<close>: it equals the operation the specification
  describes (a new enumerator bound to \<open>c\<close>, the filter set applied to it, that
  enumerator returned), and what it returns is the enumerator with context \<open>c\<close> and the
  native handle that was free before the call.
\<close>

theorem list_devices_is_Enumerator_match:
  "list_devices c kw w = and_then (Enumerator (PContext c)) (\<lambda>e. match e kw) w
   \<and> list_devices c kw w = spec_list_devices c kw w
   \<and> (\<forall>e w'. list_devices c kw w = (Inr e, w') \<longrightarrow>
         e = \<lparr>e_context = Some c, e_as_parameter = Some (next_enum w)\<rparr>)"
proof -
  define e0 where "e0 = \<lparr>e_context = Some c, e_as_parameter = Some (next_enum w)\<rparr>"
  define w1 where "w1 = snd (udev_enumerate_new (c_as_parameter c) w)"
  have new: "Enumerator (PContext c) w = (Inr e0, w1)"
    by (simp add: Enumerator_def Enumerator_init_def blank_enumerator_def udev_enumerate_new_def
        e0_def w1_def Let_def)
  have ld: "list_devices c kw w = match e0 kw w1"
    by (simp add: list_devices_def and_then_def new)
  have spec: "spec_list_devices c kw w = match e0 kw w1"
    by (simp add: spec_list_devices_def match_as_calls and_then_def returns_def
        udev_enumerate_new_def e0_def w1_def Let_def split: prod.splits sum.splits)
  have "e = e0" if "list_devices c kw w = (Inr e, w')" for e w'
    using that ld match_returns_self by simp
  then show ?thesis
    using ld spec by (simp add: list_devices_def e0_def)
qed

theorem list_devices_is_Enumerator_match_witness:
  "list_devices example_context [(''subsystem'', PText ''block'')]
      (snd (Context_init (empty_world example_registry)))
     = (Inr example_enumerator, add_match 0 (MSubsystem ''block'') example_world)
   \<and> example_enumerator =
       \<lparr>e_context = Some example_context,
        e_as_parameter = Some (next_enum (snd (Context_init (empty_world example_registry))))\<rparr>"
proof -
  have "list_devices example_context [(''subsystem'', PText ''block'')]
      (snd (Context_init (empty_world example_registry)))
     = (Inr example_enumerator, add_match 0 (MSubsystem ''block'') example_world)"
    by (simp add: list_devices_def and_then_def example_enumerator_created match_as_calls
        routed_calls_def route_def recognized_def returns_def method_defs add_match_defs
        example_facts)
  then show ?thesis
    using list_devices_is_Enumerator_match [of example_context "[(''subsystem'', PText ''block'')]"
        "snd (Context_init (empty_world example_registry))"]
    by simp
qed

subsection \<open>The filter methods\<close>

text \<open>
  C8. Every filter-adding method (\<^verbatim>\<open>match\<close>, \<^verbatim>\<open>match_subsystem\<close>, \<^verbatim>\<open>match_sys_name\<close>,
  \<^verbatim>\<open>match_property\<close>, \<^verbatim>\<open>match_attribute\<close>, \<^verbatim>\<open>match_tag\<close>, \<^verbatim>\<open>match_is_initialized\<close>,
  \<^verbatim>\<open>match_parent\<close>) returns, when it returns, the object it was called on; so a chain of
  filter calls is the sequence of the same calls, all made on the one enumerator the
  chain starts from, and it returns that enumerator.
\<close>

theorem filter_methods_return_self:
  "(\<forall>e w'. match self kw w = (Inr e, w') \<longrightarrow> e = self)
   \<and> (\<forall>e w'. match_subsystem self a w = (Inr e, w') \<longrightarrow> e = self)
   \<and> (\<forall>e w'. match_sys_name self a w = (Inr e, w') \<longrightarrow> e = self)
   \<and> (\<forall>e w'. match_property self a b w = (Inr e, w') \<longrightarrow> e = self)
   \<and> (\<forall>e w'. match_attribute self a b w = (Inr e, w') \<longrightarrow> e = self)
   \<and> (\<forall>e w'. match_tag self a w = (Inr e, w') \<longrightarrow> e = self)
   \<and> (\<forall>e w'. match_is_initialized self w = (Inr e, w') \<longrightarrow> e = self)
   \<and> (\<forall>e w'. match_parent self p w = (Inr e, w') \<longrightarrow> e = self)
   \<and> chain self cs w = and_then (run_calls self cs) (\<lambda>_. returns self) w"
proof (intro conjI allI impI)
  show "chain self cs w = and_then (run_calls self cs) (\<lambda>_. returns self) w"
    by (rule chain_run_calls)
qed (erule method_returns_self match_returns_self)+

theorem filter_methods_return_self_witness:
  "fst (match example_enumerator [(''tag'', PText ''seat'')] example_world) = Inr example_enumerator
   \<and> fst (match_subsystem example_enumerator (PText ''block'') example_world) = Inr example_enumerator
   \<and> fst (match_sys_name example_enumerator (PText ''block'') example_world) = Inr example_enumerator
   \<and> fst (match_property example_enumerator (PText ''block'') (PInt 1) example_world) = Inr example_enumerator
   \<and> fst (match_attribute example_enumerator (PText ''block'') (PInt 1) example_world) = Inr example_enumerator
   \<and> fst (match_tag example_enumerator (PText ''block'') example_world) = Inr example_enumerator
   \<and> fst (match_is_initialized example_enumerator example_world) = Inr example_enumerator
   \<and> fst (match_parent example_enumerator
             (PDevice \<lparr>dev_context = example_context, dev_path = ''/sys/sda''\<rparr>) example_world)
       = Inr example_enumerator
   \<and> fst (chain example_enumerator [Match_subsystem (PText ''block''), Match_is_initialized]
             example_world) = Inr example_enumerator"
  using filter_methods_return_self [of example_enumerator "[(''tag'', PText ''seat'')]" example_world
      "PText ''block''" "PInt 1"
      "PDevice \<lparr>dev_context = example_context, dev_path = ''/sys/sda''\<rparr>"
      "[Match_subsystem (PText ''block''), Match_is_initialized]"]
  by (simp add: match_as_calls routed_calls_def route_def recognized_def and_then_def returns_def
      method_defs example_facts)

text \<open>
  C7. Values of type bool, int, byte string and text that stand for the same value
  normalize to the same byte string: \<^verbatim>\<open>True\<close>, \<^verbatim>\<open>1\<close>, the text \<^verbatim>\<open>"1"\<close> and the bytes
  \<^verbatim>\<open>"1"\<close> all give \<^verbatim>\<open>"1"\<close>; a boolean gives what the integer 1 or 0 gives, an integer
  what its decimal text gives, a text what its bytes give. \<^verbatim>\<open>match_property\<close> and
  \<^verbatim>\<open>match_attribute\<close> apply this one normalization: values that normalize alike give
  the same call, and the native layer receives the normalized value.
\<close>

theorem property_values_normalize_alike:
  "property_value_to_bytes (PBool True) = ''1''
   \<and> property_value_to_bytes (PInt 1) = ''1''
   \<and> property_value_to_bytes (PText ''1'') = ''1''
   \<and> property_value_to_bytes (PBytes ''1'') = ''1''
   \<and> property_value_to_bytes (PBool b) = property_value_to_bytes (PInt (if b then 1 else 0))
   \<and> property_value_to_bytes (PInt i) = property_value_to_bytes (PText (int_text i))
   \<and> property_value_to_bytes (PText t) = property_value_to_bytes (PBytes t)
   \<and> (property_value_to_bytes v = property_value_to_bytes v' \<longrightarrow>
        match_property self k v w = match_property self k v' w
        \<and> match_attribute self k v w = match_attribute self k v' w)
   \<and> (ensure_byte_string k = Inr kb \<and> e_as_parameter self = Some h \<longrightarrow>
        match_property self k v w =
          (Inr self, add_match h (MProperty kb (property_value_to_bytes v)) w)
        \<and> match_attribute self k v w =
          (Inr self, add_match h (MAttribute kb (property_value_to_bytes v)) w))"
proof -
  have same: "match_property self k v w = match_property self k v' w
        \<and> match_attribute self k v w = match_attribute self k v' w"
    if "property_value_to_bytes v = property_value_to_bytes v'"
    using that by (simp add: match_property_def match_attribute_def Let_def cong: sum.case_cong)
  have handed: "match_property self k v w =
          (Inr self, add_match h (MProperty kb (property_value_to_bytes v)) w)
        \<and> match_attribute self k v w =
          (Inr self, add_match h (MAttribute kb (property_value_to_bytes v)) w)"
    if "ensure_byte_string k = Inr kb" "e_as_parameter self = Some h"
    using that
    by (simp add: match_property_def match_attribute_def enumerator_param_def
        udev_enumerate_add_match_property_def udev_enumerate_add_match_sysattr_def)
  show ?thesis
    using same handed by (simp add: int_text_1 int_text_0)
qed

theorem property_values_normalize_alike_witness:
  "property_value_to_bytes (PBool True) = property_value_to_bytes (PText ''1'')
   \<and> property_value_to_bytes (PBool False) = property_value_to_bytes (PInt 0)
   \<and> property_value_to_bytes (PInt (- 42)) = property_value_to_bytes (PText ''-42'')
   \<and> match_property example_enumerator (PText ''ID_CDROM'') (PBool True) example_world =
       match_property example_enumerator (PText ''ID_CDROM'') (PText ''1'') example_world
   \<and> match_attribute example_enumerator (PText ''ID_CDROM'') (PBool True) example_world =
       match_attribute example_enumerator (PText ''ID_CDROM'') (PText ''1'') example_world
   \<and> match_property example_enumerator (PText ''ID_CDROM'') (PBool True) example_world =
       (Inr example_enumerator, add_match 0 (MProperty ''ID_CDROM'' ''1'') example_world)
   \<and> match_attribute example_enumerator (PText ''ID_CDROM'') (PBool True) example_world =
       (Inr example_enumerator, add_match 0 (MAttribute ''ID_CDROM'' ''1'') example_world)"
proof -
  have m42: "int_text (- 42) = ''-42''"
    by (simp add: int_text_def nat_text.simps digit_char_def)
  show ?thesis
    using property_values_normalize_alike [of False "- 42" "''1''" "PBool True" "PText ''1''"
        example_enumerator "PText ''ID_CDROM''" example_world "''ID_CDROM''" 0]
    by (simp add: m42 int_text_0 int_text_1 example_facts method_defs add_match_defs Let_def)
qed

subsection \<open>Keyword arguments\<close>

text \<open>
  C3. \<^verbatim>\<open>match()\<close> with no keyword argument is a no-op: it returns the enumerator, raises
  nothing and leaves the whole world as it was (no predicate appended, no native call);
  so iterating after it is iterating without it, on any enumerator and on a new one.
\<close>

theorem match_without_keywords_is_noop:
  "match self [] w = (Inr self, w)
   \<and> and_then (match self []) iterate w = iterate self w
   \<and> and_then (Enumerator (PContext c)) (\<lambda>e. and_then (match e []) iterate) w =
       and_then (Enumerator (PContext c)) iterate w"
proof -
  have noop: "match e [] = returns e" for e
    by (rule ext) (simp add: match_def dict_pop_def and_then_def returns_def)
  show ?thesis
    by (simp add: noop and_then_returns_left) (simp add: returns_def)
qed

text \<open>
  C2, as the code has it. \<^verbatim>\<open>match(**kw)\<close> is the sequence of these calls on \<^verbatim>\<open>self\<close>, in
  this order, each made only if the calls before it returned: \<^verbatim>\<open>match_subsystem\<close>,
  \<^verbatim>\<open>match_sys_name\<close>, \<^verbatim>\<open>match_tag\<close>, \<^verbatim>\<open>match_parent\<close>, each for its keyword if that is
  passed with a value other than \<^verbatim>\<open>None\<close>; then \<^verbatim>\<open>match_property(name, value)\<close> for
  every other keyword, whatever its value. Then it returns \<^verbatim>\<open>self\<close>.
\<close>

theorem match_routes_keywords:
  "match self kw w = and_then (run_calls self (routed_calls kw)) (\<lambda>_. returns self) w"
  by (simp add: match_as_calls)

theorem match_routes_keywords_witness:
  "calls (snd (match example_enumerator
      [(''DEVTYPE'', PText ''disk''), (''tag'', PText ''seat''), (''parent'', PNone),
       (''subsystem'', PText ''block'')] example_world))
   = calls example_world @
       [Call_add_match 0 (MSubsystem ''block''), Call_add_match 0 (MTag ''seat''),
        Call_add_match 0 (MProperty ''DEVTYPE'' ''disk'')]"
  using match_routes_keywords [of example_enumerator
      "[(''DEVTYPE'', PText ''disk''), (''tag'', PText ''seat''), (''parent'', PNone),
        (''subsystem'', PText ''block'')]" example_world]
  by (simp add: routed_calls_def route_def recognized_def and_then_def returns_def method_defs
      add_match_defs add_match_def log_call_def example_facts Let_def)

text \<open>
  C2, as it is stated, asks that a recognized keyword is routed whenever it is passed.
  \<^verbatim>\<open>match(subsystem=None)\<close> on the example enumerator makes no call and returns, while
  the stated routing calls \<^verbatim>\<open>match_subsystem(None)\<close>, which raises.
\<close>

theorem match_None_keyword_not_routed:
  "match example_enumerator [(''subsystem'', PNone)] example_world
     = (Inr example_enumerator, example_world)
   \<and> and_then (run_calls example_enumerator (calls_as_stated [(''subsystem'', PNone)]))
        (\<lambda>_. returns example_enumerator) example_world
     = (Inl InvalidArgument, example_world)
   \<and> match example_enumerator [(''subsystem'', PNone)] example_world
     \<noteq> and_then (run_calls example_enumerator (calls_as_stated [(''subsystem'', PNone)]))
        (\<lambda>_. returns example_enumerator) example_world"
  by (simp add: match_as_calls routed_calls_def route_def calls_as_stated_def route_as_stated_def
      recognized_def and_then_def returns_def method_defs)

text \<open>
  C10. For a recognized keyword (\<^verbatim>\<open>subsystem\<close>, \<^verbatim>\<open>sys_name\<close>, \<^verbatim>\<open>tag\<close>, \<^verbatim>\<open>parent\<close>),
  passing \<^verbatim>\<open>None\<close> is the same as omitting the keyword, wherever it stands among the
  keyword arguments: the results and the worlds are equal, the calls routed are the
  same (no call of its filter method, no \<^verbatim>\<open>match_property\<close> for it), and passed alone
  it changes nothing.
\<close>

theorem match_None_is_omitted:
  assumes "key \<in> set recognized" and "key \<notin> fst ` set (kw1 @ kw2)"
  shows "match self (kw1 @ (key, PNone) # kw2) w = match self (kw1 @ kw2) w
       \<and> routed_calls (kw1 @ (key, PNone) # kw2) = routed_calls (kw1 @ kw2)
       \<and> match self [(key, PNone)] w = (Inr self, w)"
proof -
  have r: "routed_calls (kw1 @ (key, PNone) # kw2) = routed_calls (kw1 @ kw2)"
    using assms by (rule routed_calls_insert_None)
  have "routed_calls ([] @ (key, PNone) # []) = routed_calls ([] @ [])"
    using assms(1) by (intro routed_calls_insert_None) simp_all
  then have "match self [(key, PNone)] w = (Inr self, w)"
    by (simp add: match_as_calls routed_calls_def route_def and_then_def returns_def)
  with r show ?thesis by (simp add: match_as_calls)
qed

theorem match_None_is_omitted_witness:
  "''subsystem'' \<in> set recognized
   \<and> ''subsystem'' \<notin> fst ` set ([(''DEVTYPE'', PText ''disk'')] @ [(''tag'', PText ''seat'')])
   \<and> match example_enumerator
         [(''DEVTYPE'', PText ''disk''), (''subsystem'', PNone), (''tag'', PText ''seat'')]
         example_world
       = match example_enumerator [(''DEVTYPE'', PText ''disk''), (''tag'', PText ''seat'')]
           example_world
   \<and> calls (snd (match example_enumerator
         [(''DEVTYPE'', PText ''disk''), (''subsystem'', PNone), (''tag'', PText ''seat'')]
         example_world))
       = calls example_world @
           [Call_add_match 0 (MTag ''seat''), Call_add_match 0 (MProperty ''DEVTYPE'' ''disk'')]
   \<and> match example_enumerator [(''subsystem'', PNone)] example_world
       = (Inr example_enumerator, example_world)"
proof -
  have a: "''subsystem'' \<in> set recognized" by (simp add: recognized_def)
  have b: "''subsystem'' \<notin> fst ` set ([(''DEVTYPE'', PText ''disk'')] @ [(''tag'', PText ''seat'')])"
    by simp
  have c: "calls (snd (match example_enumerator
             [(''DEVTYPE'', PText ''disk''), (''tag'', PText ''seat'')] example_world))
       = calls example_world @
           [Call_add_match 0 (MTag ''seat''), Call_add_match 0 (MProperty ''DEVTYPE'' ''disk'')]"
  by (simp add: match_as_calls routed_calls_def route_def recognized_def and_then_def returns_def
      method_defs add_match_defs add_match_def log_call_def example_facts Let_def)
  show ?thesis
    using match_None_is_omitted [OF a b, of example_enumerator example_world] a b c by simp
qed

subsection \<open>Iteration\<close>

text \<open>
  C6, as the code has it. For an initialised enumerator: construction makes no scan and no
  list-head retrieval; the call of \<^verbatim>\<open>__iter__\<close> returns a new generator and runs nothing;
  the first advance of that generator makes the scan, then the list-head retrieval, then
  resolves the first entry; no later advance scans or retrieves again. So a full
  iteration makes exactly one scan and one retrieval, first of all its native calls, on
  the predicates and the registry as they are when it starts, and iterating twice makes
  two scans, each followed by its retrieval.
\<close>

theorem scan_once_at_first_advance:
  assumes "e_context self = Some c" and "e_as_parameter self = Some h"
  shows "scan_calls (calls (snd (Enumerator arg w))) = scan_calls (calls w)
       \<and> Enumerator_iter self w = (Inr \<lparr>g_self = self, g_state = GenCreated\<rparr>, w)
       \<and> calls (snd (snd (generator_next \<lparr>g_self = self, g_state = GenCreated\<rparr> w))) =
           calls w @ Call_scan_devices h # Call_get_list_entry h #
             resolutions c (take 1 (scan_result (en_matches (enums w h)) (registry w)))
       \<and> (\<forall>g r g' w'. g_state g \<noteq> GenCreated \<and> generator_next g w = (r, g', w') \<longrightarrow>
             scan_calls (calls w') = scan_calls (calls w) \<and> g_state g' \<noteq> GenCreated)
       \<and> iterate self w =
           (Inr (resolved c (scan_result (en_matches (enums w h)) (registry w))),
            w\<lparr>enums := (enums w)
                  (h := (enums w h)\<lparr>en_list := scan_result (en_matches (enums w h)) (registry w)\<rparr>),
              calls := calls w @ Call_scan_devices h # Call_get_list_entry h #
                         resolutions c (scan_result (en_matches (enums w h)) (registry w))\<rparr>)
       \<and> scan_calls (calls (snd (iterate self w))) =
           scan_calls (calls w) @ [Call_scan_devices h, Call_get_list_entry h]
       \<and> scan_calls (calls (snd (and_then (iterate self) (\<lambda>_. iterate self) w))) =
           scan_calls (calls w) @ [Call_scan_devices h, Call_get_list_entry h,
                                   Call_scan_devices h, Call_get_list_entry h]"
proof -
  have once: "scan_calls (calls (snd (iterate self v))) =
           scan_calls (calls v) @ [Call_scan_devices h, Call_get_list_entry h]" for v
  proof -
    have "scan_calls (xs @ Call_scan_devices h # Call_get_list_entry h # resolutions c es) =
            scan_calls xs @ [Call_scan_devices h, Call_get_list_entry h]" for xs es
      using scan_calls_resolutions [of c es] by (simp add: scan_calls_def)
    then show ?thesis by (simp add: iterate_result [OF assms])
  qed
  have twice: "snd (and_then (iterate self) (\<lambda>_. iterate self) w) =
          snd (iterate self (snd (iterate self w)))"
    by (simp add: and_then_def iterate_result [OF assms])
  have later: "\<forall>g r g' w'. g_state g \<noteq> GenCreated \<and> generator_next g w = (r, g', w') \<longrightarrow>
             scan_calls (calls w') = scan_calls (calls w) \<and> g_state g' \<noteq> GenCreated"
    using later_advance_no_scan by blast
  have first: "calls (snd (snd (generator_next \<lparr>g_self = self, g_state = GenCreated\<rparr> w))) =
           calls w @ Call_scan_devices h # Call_get_list_entry h #
             resolutions c (take 1 (scan_result (en_matches (enums w h)) (registry w)))"
    by (simp add: first_advance_scans [OF assms])
  have again: "scan_calls (calls (snd (and_then (iterate self) (\<lambda>_. iterate self) w))) =
           scan_calls (calls w) @ [Call_scan_devices h, Call_get_list_entry h,
                                   Call_scan_devices h, Call_get_list_entry h]"
    unfolding twice by (simp only: once) simp
  show ?thesis
    using construction_no_scan [of arg w] first later iterate_result [OF assms, of w]
      once [of w] again
    by (simp only: Enumerator_iter_def)
qed

theorem scan_once_at_first_advance_witness:
  "e_context example_enumerator = Some example_context
   \<and> e_as_parameter example_enumerator = Some 0
   \<and> scan_calls (calls example_world) = []
   \<and> scan_calls (calls (snd (iterate example_enumerator example_world))) =
       [Call_scan_devices 0, Call_get_list_entry 0]
   \<and> scan_calls (calls (snd (and_then (iterate example_enumerator)
         (\<lambda>_. iterate example_enumerator) example_world))) =
       [Call_scan_devices 0, Call_get_list_entry 0, Call_scan_devices 0, Call_get_list_entry 0]"
proof -
  have none: "scan_calls (calls example_world) = []"
    by (simp add: example_world_eq scan_calls_def)
  note t = scan_once_at_first_advance [OF example_facts(2) example_facts(1),
        of "PContext example_context" example_world]
  from t have once: "scan_calls (calls (snd (iterate example_enumerator example_world))) =
       scan_calls (calls example_world) @ [Call_scan_devices 0, Call_get_list_entry 0]"
    by blast
  from t have twice: "scan_calls (calls (snd (and_then (iterate example_enumerator)
         (\<lambda>_. iterate example_enumerator) example_world))) =
       scan_calls (calls example_world) @
         [Call_scan_devices 0, Call_get_list_entry 0, Call_scan_devices 0, Call_get_list_entry 0]"
    by blast
  show ?thesis
    by (simp only: once twice none example_facts) simp
qed

text \<open>
  C6, as it is stated, has the call of \<^verbatim>\<open>__iter__\<close> trigger the scan. On the example
  enumerator the call leaves the world as it is, with no scan in the log; and a
  subsystem filter added after the call, before the first advance, decides what the
  generator yields (the network interface alone, instead of all five devices): the scan
  is made by the first advance, not by the call.
\<close>

theorem iter_call_does_not_scan:
  "Enumerator_iter example_enumerator example_world =
     (Inr \<lparr>g_self = example_enumerator, g_state = GenCreated\<rparr>, example_world)
   \<and> scan_calls (calls (snd (Enumerator_iter example_enumerator example_world))) \<noteq>
       scan_calls (calls example_world) @ [Call_scan_devices 0, Call_get_list_entry 0]
   \<and> fst (drain \<lparr>g_self = example_enumerator, g_state = GenCreated\<rparr> example_world) =
       Inr (resolved example_context
             [(''/sys/sda'', []), (''/sys/sda/sda1'', []), (''/sys/sr0'', []),
              (''/sys/loop0'', []), (''/sys/eth0'', [])])
   \<and> fst (drain \<lparr>g_self = example_enumerator, g_state = GenCreated\<rparr>
            (snd (match_subsystem example_enumerator (PText ''net'') example_world))) =
       Inr (resolved example_context [(''/sys/eth0'', [])])"
proof -
  have 1: "scan_result [] example_registry =
      [(''/sys/sda'', []), (''/sys/sda/sda1'', []), (''/sys/sr0'', []),
              (''/sys/loop0'', []), (''/sys/eth0'', [])]"
    by (simp add: scan_result_def device_matches_def kind_ok_def all_kinds_def
        example_registry_def)
  have 2: "scan_result [MSubsystem ''net''] example_registry = [(''/sys/eth0'', [])]"
    by (simp add: scan_result_def device_matches_def kind_ok_def all_kinds_def
        example_registry_def)
  have w1: "snd (match_subsystem example_enumerator (PText ''net'') example_world) =
      add_match 0 (MSubsystem ''net'') example_world"
    by (simp add: match_subsystem_def example_facts add_match_defs)
  show ?thesis
    by (simp add: Enumerator_iter_def scan_calls_def w1
        drain_created_result [OF example_facts(2) example_facts(1)] 1 2)
       (simp add: example_world_eq add_match_def log_call_def 1 2)
qed

text \<open>
  C1. The devices an iteration yields are the devices of the registry, in registry
  order, that satisfy every kind of predicate accumulated on the enumerator, where a kind
  is satisfied when no predicate of that kind was added or some predicate of that kind
  holds of the device: logical OR within a kind, logical AND across kinds. For the
  filters \<^verbatim>\<open>subsystem="block"\<close>, \<^verbatim>\<open>ID_TYPE="disk"\<close>, \<^verbatim>\<open>DEVTYPE="disk"\<close> added to a new
  enumerator, these are exactly the devices with
  \<^verbatim>\<open>subsystem == "block" and (ID_TYPE == "disk" or DEVTYPE == "disk")\<close>.
\<close>

theorem iteration_combines_filters:
  "(e_context self = Some c \<and> e_as_parameter self = Some h \<longrightarrow>
      fst (iterate self w) =
        Inr (map (\<lambda>d. \<lparr>dev_context = c, dev_path = d_sys_path d\<rparr>)
              (filter (\<lambda>d. \<forall>k. (\<forall>p\<in>set (en_matches (enums w h)). kind_of p \<noteq> k) \<or>
                              (\<exists>p\<in>set (en_matches (enums w h)). kind_of p = k \<and> matches p d))
                 (registry w))))
   \<and> fst (and_then (Enumerator (PContext c))
          (\<lambda>e. and_then
             (chain e [Match_subsystem (PText ''block''),
                       Match_property (PText ''ID_TYPE'') (PText ''disk''),
                       Match_property (PText ''DEVTYPE'') (PText ''disk'')])
             iterate) w) =
        Inr (map (\<lambda>d. \<lparr>dev_context = c, dev_path = d_sys_path d\<rparr>)
              (filter (\<lambda>d. d_subsystem d = ''block'' \<and>
                              (map_of (d_properties d) ''ID_TYPE'' = Some ''disk'' \<or>
                               map_of (d_properties d) ''DEVTYPE'' = Some ''disk''))
                 (registry w)))"
proof -
  have general: "fst (iterate self w) =
        Inr (map (\<lambda>d. \<lparr>dev_context = c, dev_path = d_sys_path d\<rparr>)
              (filter (\<lambda>d. \<forall>k. (\<forall>p\<in>set (en_matches (enums w h)). kind_of p \<noteq> k) \<or>
                              (\<exists>p\<in>set (en_matches (enums w h)). kind_of p = k \<and> matches p d))
                 (registry w)))"
    if "e_context self = Some c" "e_as_parameter self = Some h"
    using iterate_result [OF that, of w]
    by (simp add: resolved_scan_result device_matches_eq)
  define e where "e = \<lparr>e_context = Some c, e_as_parameter = Some (next_enum w)\<rparr>"
  define w1 where "w1 = snd (udev_enumerate_new (c_as_parameter c) w)"
  define ps where "ps = [MSubsystem ''block'', MProperty ''ID_TYPE'' ''disk'',
                         MProperty ''DEVTYPE'' ''disk'']"
  define w2 where "w2 = add_match (next_enum w) (MProperty ''DEVTYPE'' ''disk'')
                          (add_match (next_enum w) (MProperty ''ID_TYPE'' ''disk'')
                            (add_match (next_enum w) (MSubsystem ''block'') w1))"
  have new: "Enumerator (PContext c) w = (Inr e, w1)"
    by (simp add: Enumerator_def Enumerator_init_def blank_enumerator_def udev_enumerate_new_def
        e_def w1_def Let_def)
  have chained: "chain e [Match_subsystem (PText ''block''),
                       Match_property (PText ''ID_TYPE'') (PText ''disk''),
                       Match_property (PText ''DEVTYPE'') (PText ''disk'')] w1 = (Inr e, w2)"
    by (simp add: method_defs add_match_defs enumerator_param_def e_def w2_def)
  have acc: "en_matches (enums w2 (next_enum w)) = ps" and reg: "registry w2 = registry w"
    by (simp_all add: w2_def w1_def add_match_def log_call_def udev_enumerate_new_def ps_def
        Let_def)
  have attrs: "e_context e = Some c" "e_as_parameter e = Some (next_enum w)"
    by (simp_all add: e_def)
  have "fst (iterate e w2) =
          Inr (map (\<lambda>d. \<lparr>dev_context = c, dev_path = d_sys_path d\<rparr>)
                (filter (device_matches ps) (registry w)))"
    using iterate_result [OF attrs, of w2] by (simp add: resolved_scan_result acc reg)
  then have example: "fst (and_then (Enumerator (PContext c))
          (\<lambda>e. and_then
             (chain e [Match_subsystem (PText ''block''),
                       Match_property (PText ''ID_TYPE'') (PText ''disk''),
                       Match_property (PText ''DEVTYPE'') (PText ''disk'')])
             iterate) w) =
        Inr (map (\<lambda>d. \<lparr>dev_context = c, dev_path = d_sys_path d\<rparr>)
              (filter (device_matches ps) (registry w)))"
    by (simp add: and_then_def new chained del: chain.simps)
  show ?thesis
    using general example by (simp add: ps_def docstring_filter)
qed

theorem iteration_combines_filters_witness:
  "fst (and_then (Enumerator (PContext example_context))
          (\<lambda>e. and_then
             (chain e [Match_subsystem (PText ''block''),
                       Match_property (PText ''ID_TYPE'') (PText ''disk''),
                       Match_property (PText ''DEVTYPE'') (PText ''disk'')])
             iterate) (snd (Context_init (empty_world example_registry)))) =
     Inr [\<lparr>dev_context = example_context, dev_path = ''/sys/sda''\<rparr>,
          \<lparr>dev_context = example_context, dev_path = ''/sys/sda/sda1''\<rparr>,
          \<lparr>dev_context = example_context, dev_path = ''/sys/sr0''\<rparr>]
   \<and> fst (iterate example_enumerator example_world) =
     Inr [\<lparr>dev_context = example_context, dev_path = ''/sys/sda''\<rparr>,
          \<lparr>dev_context = example_context, dev_path = ''/sys/sda/sda1''\<rparr>,
          \<lparr>dev_context = example_context, dev_path = ''/sys/sr0''\<rparr>,
          \<lparr>dev_context = example_context, dev_path = ''/sys/loop0''\<rparr>,
          \<lparr>dev_context = example_context, dev_path = ''/sys/eth0''\<rparr>]"
proof -
  have reg: "registry (snd (Context_init (empty_world example_registry))) = example_registry"
    by (simp add: Context_init_def udev_new_def log_call_def empty_world_def)
  have none: "en_matches (enums example_world 0) = []"
    by (simp add: example_world_eq)
  show ?thesis
    using iteration_combines_filters [of example_enumerator example_context 0 example_world]
      iteration_combines_filters [of example_enumerator example_context 0
        "snd (Context_init (empty_world example_registry))"]
    by (simp add: example_facts reg none example_registry_paths) (simp add: example_registry_def)
qed

end
